theory Spec2Isabelle
  imports Main "HOL-Library.Char_ord" "HOL-Library.List_Lexorder"
begin

section \<open>Strings\<close>

text \<open>
  A Python \<open>str\<close> is modelled as a \<open>string\<close>. ASCII text is represented character for
  character; the non-ASCII literals of the source are written as their UTF-8 bytes.
  \<open>str.lower()\<close> is modelled on the ASCII letters and \<open>str.strip()\<close>, \<open>str.split()\<close> on the
  ASCII white space (Python also lowers the cased letters and strips the spaces beyond
  ASCII); the order on strings is the lexicographic order on character codes, as Python's.
\<close>

definition lower_char :: "char \<Rightarrow> char" where
  "lower_char c =
     (case map_of (zip ''ABCDEFGHIJKLMNOPQRSTUVWXYZ'' ''abcdefghijklmnopqrstuvwxyz'') c of
        None \<Rightarrow> c
      | Some l \<Rightarrow> l)"

definition lower :: "string \<Rightarrow> string" where
  \<comment> \<open>\<open>s.lower()\<close>\<close>
  "lower s = map lower_char s"

definition startswith :: "string \<Rightarrow> string \<Rightarrow> bool" where
  \<comment> \<open>\<open>s.startswith(p)\<close>\<close>
  "startswith s p = (take (length p) s = p)"

fun str_in :: "string \<Rightarrow> string \<Rightarrow> bool" where
  \<comment> \<open>\<open>kw in s\<close>: \<open>kw\<close> is a substring of \<open>s\<close>\<close>
  "str_in kw [] = (kw = [])"
| "str_in kw (c # cs) = (if startswith (c # cs) kw then True else str_in kw cs)"

definition is_space :: "char \<Rightarrow> bool" where
  \<comment> \<open>the ASCII characters for which \<open>str.isspace()\<close> holds\<close>
  "is_space c \<longleftrightarrow>
     c \<in> set [CHR 0x09, CHR 0x0A, CHR 0x0B, CHR 0x0C, CHR 0x0D,
              CHR 0x1C, CHR 0x1D, CHR 0x1E, CHR 0x1F, CHR 0x20]"

definition strip :: "string \<Rightarrow> string" where
  \<comment> \<open>\<open>s.strip()\<close>\<close>
  "strip s = rev (dropWhile is_space (rev (dropWhile is_space s)))"

definition split_max1 :: "string \<Rightarrow> string list" where
  \<comment> \<open>\<open>s.split(maxsplit=1)\<close>: the first word, then the rest from its first non-space
      character to the end of the string\<close>
  "split_max1 s =
     (let s1 = dropWhile is_space s in
      if s1 = [] then []
      else
        let w = takeWhile (\<lambda>c. \<not> is_space c) s1;
            r = dropWhile is_space (dropWhile (\<lambda>c. \<not> is_space c) s1)
        in if r = [] then [w] else [w, r])"

fun split_on :: "char \<Rightarrow> string \<Rightarrow> string list" where
  \<comment> \<open>\<open>s.split(sep)\<close> for a one-character separator\<close>
  "split_on sep [] = [[]]"
| "split_on sep (c # cs) =
     (if c = sep then [] # split_on sep cs
      else (case split_on sep cs of
              [] \<Rightarrow> [[c]]
            | w # ws \<Rightarrow> (c # w) # ws))"

section \<open>The classifier: \<open>tagger.auto_tag\<close>\<close>

record tag_rule =
  rule_name :: string
  rule_keywords :: "string list"

definition fallback_tag :: string where
  \<comment> \<open>the literal of \<open>auto_tag\<close>'s last line, two CJK characters, in UTF-8\<close>
  "fallback_tag = [CHR 0xE5, CHR 0x85, CHR 0xB6, CHR 0xE4, CHR 0xBB, CHR 0x96]"

fun any_keyword :: "string \<Rightarrow> string list \<Rightarrow> bool" where
  \<comment> \<open>the inner loop of \<open>auto_tag\<close>, which stops at the first keyword found\<close>
  "any_keyword combined [] = False"
| "any_keyword combined (kw # kws) =
     (if str_in (lower kw) combined then True else any_keyword combined kws)"

fun collect_tags :: "string \<Rightarrow> tag_rule list \<Rightarrow> string list" where
  \<comment> \<open>the outer loop of \<open>auto_tag\<close>: one \<open>tags.append(rule["name"])\<close> per matching rule\<close>
  "collect_tags combined [] = []"
| "collect_tags combined (rule # rules) =
     (if any_keyword combined (rule_keywords rule)
      then rule_name rule # collect_tags combined rules
      else collect_tags combined rules)"

definition auto_tag :: "string \<Rightarrow> string \<Rightarrow> tag_rule list \<Rightarrow> string list" where
  "auto_tag title text tag_rules =
     (let combined = lower (title @ '' '' @ text);
          tags = collect_tags combined tag_rules
      in if tags \<noteq> [] then tags else [fallback_tag])"

text \<open>
  The specification's notion of matching: a keyword occurs case-insensitively in a text
  when its lower-cased form is a substring of the lower-cased text.
\<close>

definition occurs_ci :: "string \<Rightarrow> string \<Rightarrow> bool" where
  "occurs_ci kw s = str_in (lower kw) (lower s)"

definition rule_matches :: "string \<Rightarrow> tag_rule \<Rightarrow> bool" where
  "rule_matches s rule = list_ex (\<lambda>kw. occurs_ci kw s) (rule_keywords rule)"

section \<open>The data model\<close>

text \<open>
  The dictionaries of the program have fixed keys and are modelled as records. A key
  that every reader fetches with \<open>.get(key, default)\<close> is a field holding the default when
  the key is absent. The two keys that \<open>_process_notes\<close> does not write, \<open>removed\<close> and
  \<open>removed_at\<close>, are optional fields: \<open>None\<close> is the absent key.
\<close>

record item =
  item_id :: string
  title :: string
  author :: string
  author_id :: string
  url :: string
  cover :: string
  item_type :: string
  tags :: "string list"
  desc :: string
  item_note :: string
  reviewed :: bool
  xsec_token :: string
  first_seen :: string
  saved_at :: string
  removed :: "bool option"
  removed_at :: "string option"

definition is_removed :: "item \<Rightarrow> bool" where
  \<comment> \<open>the truth value of \<open>item.get("removed")\<close>, as \<open>cli.cmd_stats\<close> reads it\<close>
  "is_removed it = (removed it = Some True)"

record db =
  items :: "item list"
  last_fetch :: "string option"

record user_info =
  nickname :: string
  user_id :: string

datatype raw_cover = Cover_dict string | Cover_other

record raw_note =
  note_id :: string
  display_title :: string
  note_title :: string
  user :: user_info
  note_cover :: raw_cover
  note_type :: string
  note_xsec_token :: string

record review_state =
  mode :: string
  reviewed_ids :: "string list"
  session_start :: "string option"
  last_shown_id :: "string option"

type_synonym path = "string list"

record config =
  xhs_base_url :: string
  data_dir :: path
  tag_rules :: "tag_rule list"

definition likes_file :: "config \<Rightarrow> path" where
  "likes_file c = data_dir c @ [''likes.json'']"

definition bookmarks_file :: "config \<Rightarrow> path" where
  "bookmarks_file c = data_dir c @ [''bookmarks.json'']"

definition likes_md :: "config \<Rightarrow> path" where
  "likes_md c = data_dir c @ [''likes.md'']"

definition bookmarks_md :: "config \<Rightarrow> path" where
  "bookmarks_md c = data_dir c @ [''bookmarks.md'']"

definition review_state_file :: "config \<Rightarrow> path" where
  "review_state_file c = data_dir c @ [''review_state.json'']"

section \<open>The store: \<open>utils.load_db\<close>, \<open>utils.save_db\<close>\<close>

text \<open>
  A file holds the JSON text of a database or of a review state, kept here as the value
  itself (\<open>json.loads\<close> gives back what \<open>json.dumps\<close> was given), or a Markdown export,
  kept as the database and heading it was rendered from. \<open>Truncated\<close> is a file that was
  opened for writing and whose new text has not been written: \<open>json.loads\<close> raises on it.
  Directories are not tracked: \<open>mkdir(parents=True, exist_ok=True)\<close> leaves the files as
  they are.
\<close>

datatype content =
  Truncated
| Db_json db
| State_json review_state
| Markdown db string

type_synonym fs = "path \<rightharpoonup> content"

datatype error = JSONDecodeError | KeyError | IndexError | EOFError

datatype fs_op = Mkdir path | Open_w path | Write_all path content

fun apply_op :: "fs_op \<Rightarrow> fs \<Rightarrow> fs" where
  "apply_op (Mkdir d) fs = fs"
| "apply_op (Open_w p) fs = fs(p \<mapsto> Truncated)"
| "apply_op (Write_all p c) fs = fs(p \<mapsto> c)"

fun run_ops :: "fs_op list \<Rightarrow> fs \<Rightarrow> fs" where
  "run_ops [] fs = fs"
| "run_ops (x # xs) fs = run_ops xs (apply_op x fs)"

definition write_text :: "path \<Rightarrow> content \<Rightarrow> fs_op list" where
  \<comment> \<open>\<open>Path.write_text\<close>: open the file itself in mode \<open>w\<close>, which truncates it, then write\<close>
  "write_text p c = [Open_w p, Write_all p c]"

definition load_db :: "path \<Rightarrow> fs \<Rightarrow> error + db" where
  "load_db p fs =
     (case fs p of
        None \<Rightarrow> Inr \<lparr>items = [], last_fetch = None\<rparr>
      | Some Truncated \<Rightarrow> Inl JSONDecodeError
      | Some (Db_json d) \<Rightarrow> Inr d
      | Some (State_json st) \<Rightarrow> Inl KeyError
      | Some (Markdown d h) \<Rightarrow> Inl JSONDecodeError)"

definition save_db_ops :: "path \<Rightarrow> db \<Rightarrow> fs_op list" where
  \<comment> \<open>the two lines of \<open>save_db\<close>, as the file operations they perform\<close>
  "save_db_ops p d = Mkdir (butlast p) # write_text p (Db_json d)"

definition save_db :: "path \<Rightarrow> db \<Rightarrow> fs \<Rightarrow> fs" where
  "save_db p d fs = run_ops (save_db_ops p d) fs"

definition export_markdown :: "db \<Rightarrow> path \<Rightarrow> string \<Rightarrow> fs \<Rightarrow> fs" where
  "export_markdown d md_path heading fs = run_ops (write_text md_path (Markdown d heading)) fs"

section \<open>The merge engine: \<open>fetcher._fetch_by_tab\<close>, \<open>fetcher._process_notes\<close>\<close>

fun deduplicate :: "string list \<Rightarrow> raw_note list \<Rightarrow> raw_note list" where
  \<comment> \<open>the last loop of \<open>_fetch_by_tab\<close>; the first argument is \<open>seen\<close>\<close>
  "deduplicate seen [] = []"
| "deduplicate seen (n # ns) =
     (let nid = note_id n in
      if nid \<noteq> [] \<and> nid \<notin> set seen then n # deduplicate (nid # seen) ns
      else deduplicate seen ns)"

definition placeholder_prefix :: string where
  \<comment> \<open>the literal before \<open>nid[:8]\<close>: two CJK characters in UTF-8 and a space\<close>
  "placeholder_prefix = [CHR 0xE7, CHR 0xAC, CHR 0x94, CHR 0xE8, CHR 0xAE, CHR 0xB0, CHR 0x20]"

definition new_item :: "config \<Rightarrow> string \<Rightarrow> raw_note \<Rightarrow> item" where
  \<comment> \<open>the dictionary built in the loop of \<open>_process_notes\<close>\<close>
  "new_item c timestamp n =
     (let nid = note_id n;
          shown = (if display_title n \<noteq> [] then display_title n
                   else if note_title n \<noteq> [] then note_title n
                   else placeholder_prefix @ take 8 nid)
      in \<lparr>item_id = nid,
          title = shown,
          author = nickname (user n),
          author_id = user_id (user n),
          url = xhs_base_url c @ ''/explore/'' @ nid,
          cover = (case note_cover n of Cover_dict u \<Rightarrow> u | Cover_other \<Rightarrow> []),
          item_type = note_type n,
          tags = [],
          desc = [],
          item_note = [],
          reviewed = False,
          xsec_token = note_xsec_token n,
          first_seen = timestamp,
          saved_at = timestamp,
          removed = None,
          removed_at = None\<rparr>)"

fun new_items :: "string list \<Rightarrow> config \<Rightarrow> string \<Rightarrow> raw_note list \<Rightarrow> item list" where
  \<comment> \<open>the loop of \<open>_process_notes\<close>: the items it appends, in order; \<open>existing_ids\<close> is
      the first argument and stays as it was computed before the loop\<close>
  "new_items existing_ids c timestamp [] = []"
| "new_items existing_ids c timestamp (n # ns) =
     (if note_id n \<notin> set existing_ids
      then new_item c timestamp n # new_items existing_ids c timestamp ns
      else new_items existing_ids c timestamp ns)"

definition process_notes ::
  "raw_note list \<Rightarrow> config \<Rightarrow> path \<Rightarrow> path \<Rightarrow> string \<Rightarrow> string \<Rightarrow> fs \<Rightarrow> error + (fs \<times> nat)" where
  \<comment> \<open>\<open>_process_notes\<close>; \<open>timestamp\<close> is what \<open>now_cn()\<close> returns at its first line\<close>
  "process_notes notes c db_path md_path md_title timestamp fs =
     (case load_db db_path fs of
        Inl e \<Rightarrow> Inl e
      | Inr d \<Rightarrow>
          let existing_ids = map item_id (items d);
              added = new_items existing_ids c timestamp notes;
              d' = d\<lparr>items := items d @ added, last_fetch := Some timestamp\<rparr>
          in Inr (export_markdown d' md_path md_title (save_db db_path d' fs), length added))"

section \<open>The tagging pass: \<open>tagger.tag_all\<close>\<close>

definition likes_heading :: string where
  "likes_heading = [CHR 0xE5, CHR 0xB0, CHR 0x8F, CHR 0xE7, CHR 0xBA, CHR 0xA2, CHR 0xE4, CHR 0xB9,
     CHR 0xA6, CHR 0xE7, CHR 0x82, CHR 0xB9, CHR 0xE8, CHR 0xB5, CHR 0x9E]"

definition bookmarks_heading :: string where
  "bookmarks_heading = [CHR 0xE5, CHR 0xB0, CHR 0x8F, CHR 0xE7, CHR 0xBA, CHR 0xA2, CHR 0xE4, CHR 0xB9,
     CHR 0xA6, CHR 0xE6, CHR 0x94, CHR 0xB6, CHR 0xE8, CHR 0x97, CHR 0x8F, CHR 0xE5, CHR 0xA4, CHR 0xB9]"

definition tag_untagged :: "tag_rule list \<Rightarrow> item \<Rightarrow> item" where
  \<comment> \<open>the body of the loop of \<open>tag_all\<close>\<close>
  "tag_untagged rules it =
     (if tags it = [] then it\<lparr>tags := auto_tag (title it) (desc it) rules\<rparr> else it)"

definition tag_all :: "config \<Rightarrow> string \<Rightarrow> fs \<Rightarrow> error + fs" where
  "tag_all c collection fs =
     (let db_path = (if collection = ''likes'' then likes_file c else bookmarks_file c);
          md_path = (if collection = ''likes'' then likes_md c else bookmarks_md c);
          heading = (if collection = ''likes'' then likes_heading else bookmarks_heading)
      in case load_db db_path fs of
           Inl e \<Rightarrow> Inl e
         | Inr d \<Rightarrow>
             let d' = d\<lparr>items := map (tag_untagged (tag_rules c)) (items d)\<rparr>
             in Inr (export_markdown d' md_path heading (save_db db_path d' fs)))"

section \<open>The review session: \<open>reviewer.review\<close>\<close>

definition default_state :: review_state where
  "default_state = \<lparr>mode = ''ai'', reviewed_ids = [], session_start = None, last_shown_id = None\<rparr>"

definition load_state :: "config \<Rightarrow> fs \<Rightarrow> error + review_state" where
  \<comment> \<open>\<open>_load_state\<close>; a file of another kind is reported as an error (Python would go on
      with a dictionary of the wrong shape, which the model does not follow)\<close>
  "load_state c fs =
     (case fs (review_state_file c) of
        None \<Rightarrow> Inr default_state
      | Some Truncated \<Rightarrow> Inl JSONDecodeError
      | Some (State_json st) \<Rightarrow> Inr st
      | Some (Db_json d) \<Rightarrow> Inl KeyError
      | Some (Markdown d h) \<Rightarrow> Inl JSONDecodeError)"

definition save_state :: "config \<Rightarrow> review_state \<Rightarrow> fs \<Rightarrow> fs" where
  \<comment> \<open>\<open>_save_state\<close>\<close>
  "save_state c st fs =
     run_ops (Mkdir (data_dir c) # write_text (review_state_file c) (State_json st)) fs"

definition get_items :: "db \<Rightarrow> string \<Rightarrow> string list \<Rightarrow> (nat \<times> item) list" where
  \<comment> \<open>\<open>_get_items\<close>: an entry is kept when none of the three \<open>continue\<close> tests holds\<close>
  "get_items d m ids =
     filter (\<lambda>(i, it).
         \<not> item_id it \<in> set ids
       \<and> \<not> (m = ''ai'' \<and> ''AI/LLM'' \<notin> set (tags it))
       \<and> \<not> (m = ''other'' \<and> ''AI/LLM'' \<in> set (tags it)))
       (enumerate 0 (items d))"

text \<open>
  The loop of \<open>review\<close> runs on three variables: the position, the set \<open>reviewed\<close> and the
  database, whose items the loop mutates through the entries of the fixed list \<open>items\<close>
  (each entry is the dictionary at its index in the database, not a copy). The set is
  kept as a list without repetitions, in insertion order; Python fixes no order for
  \<open>list(reviewed)\<close>, and the program reads the saved list back only through \<open>set(...)\<close>.
\<close>

record session =
  pos :: nat
  reviewed_set :: "string list"
  data :: db

datatype flow = Continue session | Break session

definition put_item :: "nat \<Rightarrow> item \<Rightarrow> db \<Rightarrow> db" where
  "put_item idx it d = d\<lparr>items := (items d)[idx := it]\<rparr>"

definition review_command :: "nat \<Rightarrow> string \<Rightarrow> string \<Rightarrow> session \<Rightarrow> error + flow" where
  \<comment> \<open>one turn of the loop on the item at index \<open>idx\<close>: \<open>line\<close> is what \<open>input\<close> returns and
      \<open>now\<close> what \<open>now_cn()\<close> would return during this turn\<close>
  "review_command idx line now s =
     (let cmd = lower (strip line);
          it = items (data s) ! idx
      in
      if cmd \<in> set [''k'', ''keep'', []] then
        Inr (Continue (s\<lparr>data := put_item idx (it\<lparr>reviewed := True\<rparr>) (data s),
                          reviewed_set := List.insert (item_id it) (reviewed_set s),
                          pos := pos s + 1\<rparr>))
      else if cmd \<in> set [''r'', ''remove''] then
        Inr (Continue (s\<lparr>data := put_item idx
                             (it\<lparr>reviewed := True, removed := Some True, removed_at := Some now\<rparr>)
                             (data s),
                          reviewed_set := List.insert (item_id it) (reviewed_set s),
                          pos := pos s + 1\<rparr>))
      else if cmd \<in> set [''s'', ''skip''] then
        Inr (Continue (s\<lparr>pos := pos s + 1\<rparr>))
      else if startswith cmd ''t '' \<or> startswith cmd ''tag '' then
        (case split_max1 cmd of
           [w, r] \<Rightarrow>
             let new_tags = filter (\<lambda>t. t \<noteq> []) (map strip (split_on (CHR '','') r))
             in Inr (Continue (s\<lparr>data := put_item idx
                                    (it\<lparr>tags := sort (remdups (tags it @ new_tags))\<rparr>) (data s)\<rparr>))
         | _ \<Rightarrow> Inl IndexError)
      else if startswith cmd ''n '' \<or> startswith cmd ''note '' then
        (case split_max1 cmd of
           [w, r] \<Rightarrow> Inr (Continue (s\<lparr>data := put_item idx (it\<lparr>item_note := r\<rparr>) (data s)\<rparr>))
         | _ \<Rightarrow> Inl IndexError)
      else if cmd \<in> set [''q'', ''quit''] then
        Inr (Break s)
      else
        Inr (Continue s))"

fun review_loop :: "(nat \<times> item) list \<Rightarrow> (string \<times> string) list \<Rightarrow> session \<Rightarrow> error + session" where
  \<comment> \<open>the \<open>while\<close> loop; each turn takes one input line with the clock reading of that
      turn, and \<open>input\<close> raises \<open>EOFError\<close> when no line is left\<close>
  "review_loop its [] s = (if pos s < length its then Inl EOFError else Inr s)"
| "review_loop its ((line, now) # rest) s =
     (if pos s < length its then
        (case review_command (fst (its ! pos s)) line now s of
           Inl e \<Rightarrow> Inl e
         | Inr (Break s') \<Rightarrow> Inr s'
         | Inr (Continue s') \<Rightarrow> review_loop its rest s')
      else Inr s)"

definition review :: "config \<Rightarrow> string \<Rightarrow> string \<Rightarrow> (string \<times> string) list \<Rightarrow> fs \<Rightarrow> error + fs" where
  \<comment> \<open>\<open>review(config, mode)\<close>; \<open>start\<close> is the clock reading at its third line\<close>
  "review c m start inputs fs =
     (case load_state c fs of
        Inl e \<Rightarrow> Inl e
      | Inr st0 \<Rightarrow>
          let st = st0\<lparr>mode := m, session_start := Some start\<rparr> in
          (case load_db (likes_file c) fs of
             Inl e \<Rightarrow> Inl e
           | Inr d \<Rightarrow>
               let ids = remdups (reviewed_ids st);
                   its = get_items d m ids
               in if its = [] then Inr fs
                  else
                    (case review_loop its inputs \<lparr>pos = 0, reviewed_set = ids, data = d\<rparr> of
                       Inl e \<Rightarrow> Inl e
                     | Inr s \<Rightarrow>
                         Inr (save_db (likes_file c) (data s)
                                (save_state c (st\<lparr>reviewed_ids := reviewed_set s\<rparr>) fs)))))"

section \<open>The growth of a session\<close>

text \<open>The session a turn of the loop leaves, and the order in which sessions grow.\<close>

fun flow_session :: "flow \<Rightarrow> session" where
  "flow_session (Continue s) = s"
| "flow_session (Break s) = s"

definition session_le :: "session \<Rightarrow> session \<Rightarrow> bool" where
  "session_le s s' \<longleftrightarrow>
     set (reviewed_set s) \<subseteq> set (reviewed_set s')
   \<and> pos s \<le> pos s'
   \<and> length (items (data s')) = length (items (data s))
   \<and> (\<forall>i<length (items (data s)).
          item_id (items (data s') ! i) = item_id (items (data s) ! i)
        \<and> (reviewed (items (data s) ! i) \<longrightarrow> reviewed (items (data s') ! i))
        \<and> (is_removed (items (data s) ! i) \<longrightarrow> is_removed (items (data s') ! i)))"

section \<open>Example data\<close>

definition example_config :: config where
  "example_config =
     \<lparr>xhs_base_url = ''https://www.xiaohongshu.com'',
      data_dir = [''data''],
      tag_rules = [\<lparr>rule_name = ''AI/LLM'', rule_keywords = [''llm'', ''agent'']\<rparr>,
                   \<lparr>rule_name = ''Food'', rule_keywords = [''cafe'']\<rparr>]\<rparr>"

definition example_note :: "string \<Rightarrow> raw_note" where
  "example_note i =
     \<lparr>note_id = i, display_title = [], note_title = [],
      user = \<lparr>nickname = ''nick'', user_id = ''u1''\<rparr>,
      note_cover = Cover_dict ''cover.jpg'', note_type = ''normal'', note_xsec_token = ''tok''\<rparr>"

definition example_item :: "string \<Rightarrow> string \<Rightarrow> string list \<Rightarrow> item" where
  "example_item i t ts =
     \<lparr>item_id = i, title = t, author = ''nick'', author_id = ''u1'',
      url = ''https://www.xiaohongshu.com/explore/'' @ i, cover = [], item_type = ''normal'',
      tags = ts, desc = [], item_note = [], reviewed = False, xsec_token = [],
      first_seen = ''2026-01-01 09:00'', saved_at = ''2026-01-01 09:00'',
      removed = None, removed_at = None\<rparr>"

definition example_db :: db where
  "example_db = \<lparr>items = [example_item ''1'' ''LLM agents'' [], example_item ''2'' ''Cafe'' [''X'']],
                  last_fetch = None\<rparr>"

definition example_fs :: fs where
  "example_fs = [likes_file example_config \<mapsto> Db_json example_db]"

definition review_db :: db where
  "review_db = \<lparr>items = [example_item ''a'' ''LLM agents'' [''AI/LLM''],
                          example_item ''b'' ''Cafe'' [''Food''],
                          example_item ''c'' ''Prompt tips'' [''AI/LLM'', ''Code'']],
                 last_fetch = Some ''2026-01-01 09:00''\<rparr>"

definition review_fs :: fs where
  "review_fs = [likes_file example_config \<mapsto> Db_json review_db]"

definition example_inputs :: "(string \<times> string) list" where
  "example_inputs = [(''K'', ''2026-01-05 10:01''), (''tag foo,bar'', ''2026-01-05 10:02''),
                     (''r'', ''2026-01-05 10:03''), (''q'', ''2026-01-05 10:04'')]"

section \<open>Properties of the classifier\<close>

lemma startswith_iff: "startswith s p \<longleftrightarrow> (\<exists>ss. s = p @ ss)"
proof
  assume "startswith s p"
  then have "s = p @ drop (length p) s"
    by (metis append_take_drop_id startswith_def)
  then show "\<exists>ss. s = p @ ss" ..
next
  assume "\<exists>ss. s = p @ ss"
  then show "startswith s p"
    by (auto simp: startswith_def)
qed

lemma str_in_iff: "str_in kw s \<longleftrightarrow> (\<exists>ps ss. s = ps @ kw @ ss)"
proof (induction s)
  case Nil
  then show ?case by auto
next
  case (Cons c cs)
  show ?case
  proof
    assume "str_in kw (c # cs)"
    then consider "startswith (c # cs) kw" | "str_in kw cs"
      by (auto split: if_splits)
    then show "\<exists>ps ss. c # cs = ps @ kw @ ss"
    proof cases
      case 1
      then obtain ss where "c # cs = kw @ ss"
        by (auto simp: startswith_iff)
      then have "c # cs = [] @ kw @ ss" by simp
      then show ?thesis by blast
    next
      case 2
      then obtain ps ss where "cs = ps @ kw @ ss"
        using Cons.IH by auto
      then have "c # cs = (c # ps) @ kw @ ss" by simp
      then show ?thesis by blast
    qed
  next
    assume "\<exists>ps ss. c # cs = ps @ kw @ ss"
    then obtain ps ss where eq: "c # cs = ps @ kw @ ss" by blast
    show "str_in kw (c # cs)"
    proof (cases ps)
      case Nil
      then have "startswith (c # cs) kw"
        using eq by (auto simp: startswith_iff)
      then show ?thesis by simp
    next
      case (Cons p ps')
      then have "cs = ps' @ kw @ ss"
        using eq by simp
      then have "str_in kw cs"
        using Cons.IH by blast
      then show ?thesis by simp
    qed
  qed
qed

lemma any_keyword_iff:
  "any_keyword combined kws \<longleftrightarrow> (\<exists>kw\<in>set kws. str_in (lower kw) combined)"
  by (induction kws) auto

lemma collect_tags_filter:
  "collect_tags combined rules =
     map rule_name (filter (\<lambda>rule. any_keyword combined (rule_keywords rule)) rules)"
  by (induction rules) auto

lemma any_keyword_rule_matches:
  "any_keyword (lower s) (rule_keywords rule) = rule_matches s rule"
  by (simp add: any_keyword_iff rule_matches_def occurs_ci_def list_ex_iff)

lemma auto_tag_filter:
  "auto_tag t d rules =
     (let ms = map rule_name (filter (rule_matches (t @ '' '' @ d)) rules)
      in if ms \<noteq> [] then ms else [fallback_tag])"
  by (simp add: auto_tag_def collect_tags_filter any_keyword_rule_matches Let_def)

lemma rule_matches_iff:
  "rule_matches s rule \<longleftrightarrow>
     (\<exists>kw\<in>set (rule_keywords rule). \<exists>ps ss. lower s = ps @ lower kw @ ss)"
  by (simp add: rule_matches_def occurs_ci_def list_ex_iff str_in_iff)

text \<open>
  C1 (amended). \<open>auto_tag\<close> joins title and description with one space before it looks
  for keywords. For every rule list, title and description such that no keyword of any
  rule occurs case-insensitively in title, space, description, the classifier returns
  the one-element list holding the fallback tag, which is the literal of the source's
  last line and not the word \<open>uncategorized\<close>.
\<close>

theorem auto_tag_fallback:
  assumes "\<forall>r\<in>set R. \<forall>kw\<in>set (rule_keywords r). \<not> occurs_ci kw (t @ '' '' @ d)"
  shows "auto_tag t d R = [fallback_tag]"
proof -
  have "filter (rule_matches (t @ '' '' @ d)) R = []"
    using assms by (auto simp: filter_empty_conv rule_matches_def list_ex_iff)
  then show ?thesis
    by (simp add: auto_tag_filter)
qed

theorem auto_tag_fallback_witness:
  "\<not> occurs_ci ''foo'' (''hello world'' @ '' '' @ [])
   \<and> \<not> occurs_ci ''Bar'' (''hello world'' @ '' '' @ [])
   \<and> auto_tag ''hello world'' [] [\<lparr>rule_name = ''X'', rule_keywords = [''foo'', ''Bar'']\<rparr>]
       = [fallback_tag]"
proof -
  have h: "\<forall>r\<in>set [\<lparr>rule_name = ''X'', rule_keywords = [''foo'', ''Bar'']\<rparr>].
      \<forall>kw\<in>set (rule_keywords r). \<not> occurs_ci kw (''hello world'' @ '' '' @ [])"
    by (simp add: occurs_ci_def lower_def lower_char_def startswith_def)
  show ?thesis
    using h auto_tag_fallback [OF h] by simp
qed

text \<open>
  C1 as stated fails. The keyword \<open>a b\<close> does not occur in the concatenation \<open>ab\<close> of the
  title \<open>a\<close> and the description \<open>b\<close>, yet the rule matches, because the classifier looks
  in \<open>a b\<close>; the keyword \<open>d\<close> followed by a space does not occur in \<open>hello world\<close>, yet the
  rule matches on the title \<open>hello world\<close> with an empty description; and where nothing
  matches the tag returned is not \<open>uncategorized\<close>.
\<close>

theorem auto_tag_fallback_counterexample:
  "\<not> occurs_ci ''a b'' (''a'' @ ''b'')
   \<and> auto_tag ''a'' ''b'' [\<lparr>rule_name = ''X'', rule_keywords = [''a b'']\<rparr>] = [''X'']
   \<and> \<not> occurs_ci ''d '' (''hello world'' @ [])
   \<and> auto_tag ''hello world'' [] [\<lparr>rule_name = ''X'', rule_keywords = [''d '']\<rparr>] = [''X'']
   \<and> auto_tag ''hello world'' [] [] \<noteq> [''uncategorized'']"
  by (simp add: auto_tag_def occurs_ci_def lower_def lower_char_def startswith_def
      fallback_tag_def)

text \<open>
  C8 (amended). A rule matches when one of its keywords, lower-cased, is a substring of
  the lower-cased text made of the title, one space and the description. When at least
  one rule matches, \<open>auto_tag\<close> returns the names of all matching rules, in rule order
  (as a set: their union); when none does, it returns the fallback tag alone. For the
  rules \<open>X\<close> with keyword \<open>foo\<close> and \<open>Y\<close> with keyword \<open>bar\<close> and the title \<open>foo bar\<close>
  it returns \<open>X\<close> and \<open>Y\<close>.
\<close>

theorem auto_tag_union:
  "(rule_matches s r \<longleftrightarrow>
      (\<exists>kw\<in>set (rule_keywords r). \<exists>ps ss. lower s = ps @ lower kw @ ss))
   \<and> auto_tag t d R =
       (if \<exists>r\<in>set R. rule_matches (t @ '' '' @ d) r
        then map rule_name (filter (rule_matches (t @ '' '' @ d)) R)
        else [fallback_tag])
   \<and> set (auto_tag t d R) =
       (if \<exists>r\<in>set R. rule_matches (t @ '' '' @ d) r
        then {rule_name r |r. r \<in> set R \<and> rule_matches (t @ '' '' @ d) r}
        else {fallback_tag})
   \<and> auto_tag ''foo bar'' []
        [\<lparr>rule_name = ''X'', rule_keywords = [''foo'']\<rparr>,
         \<lparr>rule_name = ''Y'', rule_keywords = [''bar'']\<rparr>] = [''X'', ''Y'']"
proof -
  have list: "auto_tag t d R =
       (if \<exists>r\<in>set R. rule_matches (t @ '' '' @ d) r
        then map rule_name (filter (rule_matches (t @ '' '' @ d)) R)
        else [fallback_tag])"
    by (auto simp: auto_tag_filter Let_def filter_empty_conv)
  have sets: "set (auto_tag t d R) =
       (if \<exists>r\<in>set R. rule_matches (t @ '' '' @ d) r
        then {rule_name r |r. r \<in> set R \<and> rule_matches (t @ '' '' @ d) r}
        else {fallback_tag})"
    unfolding list by auto
  have ex: "auto_tag ''foo bar'' []
        [\<lparr>rule_name = ''X'', rule_keywords = [''foo'']\<rparr>,
         \<lparr>rule_name = ''Y'', rule_keywords = [''bar'']\<rparr>] = [''X'', ''Y'']"
    by (simp add: auto_tag_def lower_def lower_char_def startswith_def)
  show ?thesis
    using rule_matches_iff list sets ex by blast
qed

theorem auto_tag_union_witness:
  "set (auto_tag ''Agent'' ''a Python tool''
        [\<lparr>rule_name = ''AI'', rule_keywords = [''llm'', ''agent'']\<rparr>,
         \<lparr>rule_name = ''Food'', rule_keywords = [''cafe'']\<rparr>,
         \<lparr>rule_name = ''Code'', rule_keywords = [''python'']\<rparr>]) = {''AI'', ''Code''}"
proof -
  let ?R = "[\<lparr>rule_name = ''AI'', rule_keywords = [''llm'', ''agent'']\<rparr>,
         \<lparr>rule_name = ''Food'', rule_keywords = [''cafe'']\<rparr>,
         \<lparr>rule_name = ''Code'', rule_keywords = [''python'']\<rparr>]"
  have "auto_tag ''Agent'' ''a Python tool'' ?R =
       (if \<exists>r\<in>set ?R. rule_matches (''Agent'' @ '' '' @ ''a Python tool'') r
        then map rule_name (filter (rule_matches (''Agent'' @ '' '' @ ''a Python tool'')) ?R)
        else [fallback_tag])"
    using auto_tag_union [of "[]" "\<lparr>rule_name = [], rule_keywords = []\<rparr>" "''Agent''"
        "''a Python tool''" ?R]
    by blast
  then show ?thesis
    by (simp add: rule_matches_def occurs_ci_def lower_def lower_char_def startswith_def)
qed

text \<open>
  C8 as stated fails. The keyword \<open>ab\<close> occurs in the concatenation of the title \<open>a\<close>
  and the description \<open>b\<close>, so the rule \<open>X\<close> should match and be returned; the classifier
  looks in \<open>a b\<close>, finds no match, and returns the fallback tag.
\<close>

theorem auto_tag_union_counterexample:
  "occurs_ci ''ab'' (''a'' @ ''b'')
   \<and> auto_tag ''a'' ''b'' [\<lparr>rule_name = ''X'', rule_keywords = [''ab'']\<rparr>] = [fallback_tag]
   \<and> ''X'' \<notin> set (auto_tag ''a'' ''b'' [\<lparr>rule_name = ''X'', rule_keywords = [''ab'']\<rparr>])"
  by (simp add: auto_tag_def occurs_ci_def lower_def lower_char_def startswith_def
      fallback_tag_def)

section \<open>Properties of the store and of the merge engine\<close>

lemma save_db_eq: "save_db p d fs = fs(p \<mapsto> Db_json d)"
  by (simp add: save_db_def save_db_ops_def write_text_def)

lemma export_markdown_eq: "export_markdown d md h fs = fs(md \<mapsto> Markdown d h)"
  by (simp add: export_markdown_def write_text_def)

lemma save_state_eq: "save_state c st fs = fs(review_state_file c \<mapsto> State_json st)"
  by (simp add: save_state_def write_text_def)

lemma load_db_upd_same: "load_db p (fs(p \<mapsto> Db_json d)) = Inr d"
  by (simp add: load_db_def)

lemma load_db_upd_other: "q \<noteq> p \<Longrightarrow> load_db p (fs(q \<mapsto> x)) = load_db p fs"
  by (simp add: load_db_def)

lemma new_items_filter:
  "new_items existing c ts ns =
     map (new_item c ts) (filter (\<lambda>n. note_id n \<notin> set existing) ns)"
  by (induction ns) auto

lemma item_id_new_item: "item_id (new_item c ts n) = note_id n"
  by (simp add: new_item_def Let_def)

lemma map_item_id_new_items:
  "map item_id (new_items existing c ts ns) = filter (\<lambda>i. i \<notin> set existing) (map note_id ns)"
  by (simp add: new_items_filter filter_map comp_def item_id_new_item)

lemma process_notes_eq:
  assumes "load_db p fs = Inr d" and "md \<noteq> p"
  shows "process_notes ns c p md h ts fs =
           Inr (fs(p \<mapsto> Db_json (d\<lparr>items := items d @ new_items (map item_id (items d)) c ts ns,
                                     last_fetch := Some ts\<rparr>),
                   md \<mapsto> Markdown (d\<lparr>items := items d @ new_items (map item_id (items d)) c ts ns,
                                     last_fetch := Some ts\<rparr>) h),
                length (new_items (map item_id (items d)) c ts ns))"
  using assms by (simp add: process_notes_def Let_def save_db_eq export_markdown_eq)

lemma load_after_process:
  assumes "md \<noteq> p"
  shows "load_db p (fs(p \<mapsto> Db_json d', md \<mapsto> x)) = Inr d'"
  using assms by (simp add: load_db_def)

lemma new_items_again:
  "new_items (map item_id (xs @ new_items (map item_id xs) c ts ns)) c ts' ns = []"
  by (auto simp: new_items_filter filter_empty_conv item_id_new_item image_iff)

lemma deduplicate_ids:
  "distinct (map note_id (deduplicate seen ns)) \<and>
   set (map note_id (deduplicate seen ns)) \<inter> set seen = {} \<and>
   [] \<notin> set (map note_id (deduplicate seen ns))"
  by (induction seen ns rule: deduplicate.induct) (auto simp: Let_def)

lemma new_item_fields:
  "tags (new_item c ts n) = [] \<and> desc (new_item c ts n) = [] \<and> item_note (new_item c ts n) = []
   \<and> \<not> reviewed (new_item c ts n) \<and> removed (new_item c ts n) = None
   \<and> removed_at (new_item c ts n) = None
   \<and> first_seen (new_item c ts n) = ts \<and> saved_at (new_item c ts n) = ts
   \<and> title (new_item c ts n) \<noteq> []"
  by (simp add: new_item_def Let_def placeholder_prefix_def)

lemma distinct_merge:
  assumes "distinct (map item_id xs)" and "distinct (map note_id ns)"
  shows "distinct (map item_id (xs @ new_items (map item_id xs) c ts ns))"
  using assms by (auto simp: map_item_id_new_items distinct_map_filter)

lemma auto_tag_nonempty: "auto_tag t d R \<noteq> []"
  by (simp add: auto_tag_def Let_def)

lemma tag_untagged_idem: "tag_untagged R2 (tag_untagged R it) = tag_untagged R it"
  by (simp add: tag_untagged_def auto_tag_nonempty)

lemma md_ne: "likes_md c \<noteq> likes_file c" "bookmarks_md c \<noteq> bookmarks_file c"
  by (simp_all add: likes_md_def likes_file_def bookmarks_md_def bookmarks_file_def)

lemma count_new_ids:
  assumes "distinct (map note_id ns)" and "i \<in> set (map note_id ns)" and "i \<notin> set (map item_id xs)"
  shows "length (filter (\<lambda>it. item_id it = i) (xs @ new_items (map item_id xs) c ts ns)) = 1"
proof -
  have old: "filter (\<lambda>it. item_id it = i) xs = []"
    using assms(3) by (auto simp: filter_empty_conv)
  have "length (filter (\<lambda>it. item_id it = i) (new_items (map item_id xs) c ts ns))
        = length (filter (\<lambda>j. j = i) (map item_id (new_items (map item_id xs) c ts ns)))"
    by (simp add: filter_map comp_def)
  also have "\<dots> = length (filter (\<lambda>j. j = i) (filter (\<lambda>j. j \<notin> set (map item_id xs)) (map note_id ns)))"
    by (simp only: map_item_id_new_items)
  also have "\<dots> = length (filter (\<lambda>j. j = i) (map note_id ns))"
    using assms(3) by (simp add: conj_commute cong: conj_cong) 
  also have "\<dots> = 1"
  proof -
    have a: "length (filter (\<lambda>j. j = i) (map note_id ns))
             = card ({x. x = i} \<inter> set (map note_id ns))"
      using assms(1) by (rule distinct_length_filter)
    have b: "{x. x = i} \<inter> set (map note_id ns) = {i}"
      using assms(2) by auto
    show ?thesis
      unfolding a b by simp
  qed
  finally show ?thesis
    using old by simp
qed

lemma length_new_items_card:
  assumes "distinct (map note_id ns)"
  shows "length (new_items (map item_id xs) c ts ns)
         = card (set (map note_id ns) - set (map item_id xs))"
proof -
  have "length (new_items (map item_id xs) c ts ns)
        = length (filter (\<lambda>j. j \<notin> set (map item_id xs)) (map note_id ns))"
    by (metis length_map map_item_id_new_items)
  also have "\<dots> = card ({j. j \<notin> set (map item_id xs)} \<inter> set (map note_id ns))"
    using assms by (rule distinct_length_filter)
  also have "{j. j \<notin> set (map item_id xs)} \<inter> set (map note_id ns)
             = set (map note_id ns) - set (map item_id xs)"
    by auto
  finally show ?thesis .
qed

text \<open>
  C3. Merging is additive and idempotent. For a database read from the store and a
  record sequence without repeated ids, \<open>_process_notes\<close> keeps the existing items as they
  are, in place, appends no item whose id was already present, and returns the number of
  distinct new ids; merging the same sequence again returns 0 and leaves the items as
  they are, so that each new id is held by exactly one item; and \<open>last_fetch\<close> is set to
  the timestamp of the run on both merges.
\<close>

theorem merge_additive_idempotent:
  assumes "load_db p fs = Inr d" and "md \<noteq> p" and "distinct (map note_id ns)"
  shows "\<exists>fs1 fs2 d1 d2 k.
      process_notes ns c p md h ts1 fs = Inr (fs1, k) \<and> load_db p fs1 = Inr d1
    \<and> process_notes ns c p md h ts2 fs1 = Inr (fs2, 0) \<and> load_db p fs2 = Inr d2
    \<and> take (length (items d)) (items d1) = items d
    \<and> (\<forall>it\<in>set (drop (length (items d)) (items d1)). item_id it \<notin> set (map item_id (items d)))
    \<and> k = card (set (map note_id ns) - set (map item_id (items d)))
    \<and> length (items d1) = length (items d) + k
    \<and> items d2 = items d1
    \<and> (\<forall>i\<in>set (map note_id ns). i \<notin> set (map item_id (items d)) \<longrightarrow>
          length (filter (\<lambda>it. item_id it = i) (items d2)) = 1)
    \<and> last_fetch d1 = Some ts1 \<and> last_fetch d2 = Some ts2"
proof -
  let ?added = "new_items (map item_id (items d)) c ts1 ns"
  let ?d1 = "d\<lparr>items := items d @ ?added, last_fetch := Some ts1\<rparr>"
  let ?fs1 = "fs(p \<mapsto> Db_json ?d1, md \<mapsto> Markdown ?d1 h)"
  let ?d2 = "?d1\<lparr>last_fetch := Some ts2\<rparr>"
  let ?fs2 = "?fs1(p \<mapsto> Db_json ?d2, md \<mapsto> Markdown ?d2 h)"
  have run1: "process_notes ns c p md h ts1 fs = Inr (?fs1, length ?added)"
    using assms(1,2) by (rule process_notes_eq)
  have load1: "load_db p ?fs1 = Inr ?d1"
    using assms(2) by (rule load_after_process)
  have again: "new_items (map item_id (items ?d1)) c ts2 ns = []"
    using new_items_again [of "items d" c ts1 ns ts2] by simp
  have run2: "process_notes ns c p md h ts2 ?fs1 = Inr (?fs2, 0)"
    using process_notes_eq [OF load1 assms(2), of ns c h ts2] again by simp
  have load2: "load_db p ?fs2 = Inr ?d2"
    using assms(2) by (rule load_after_process)
  have fresh: "\<forall>it\<in>set (drop (length (items d)) (items ?d1)).
                 item_id it \<notin> set (map item_id (items d))"
    by (auto simp: new_items_filter item_id_new_item)
  have count: "length ?added = card (set (map note_id ns) - set (map item_id (items d)))"
    using assms(3) by (rule length_new_items_card)
  have once: "\<forall>i\<in>set (map note_id ns). i \<notin> set (map item_id (items d)) \<longrightarrow>
          length (filter (\<lambda>it. item_id it = i) (items ?d2)) = 1"
    using count_new_ids [OF assms(3)] by simp
  show ?thesis
    apply (rule exI [of _ ?fs1], rule exI [of _ ?fs2], rule exI [of _ ?d1], rule exI [of _ ?d2])
    apply (rule exI [of _ "length ?added"])
    using run1 load1 run2 load2 fresh count once by simp
qed

lemma example_load: "load_db (likes_file example_config) example_fs = Inr example_db"
  by (simp add: example_fs_def load_db_def)

theorem merge_additive_idempotent_witness:
  "\<exists>fs1 fs2 d1 d2.
      process_notes [example_note ''2'', example_note ''3''] example_config
        (likes_file example_config) (likes_md example_config) likes_heading
        ''2026-01-02 10:00'' example_fs = Inr (fs1, 1)
    \<and> load_db (likes_file example_config) fs1 = Inr d1
    \<and> process_notes [example_note ''2'', example_note ''3''] example_config
        (likes_file example_config) (likes_md example_config) likes_heading
        ''2026-01-03 10:00'' fs1 = Inr (fs2, 0)
    \<and> load_db (likes_file example_config) fs2 = Inr d2
    \<and> length (items d1) = 3 \<and> items d2 = items d1
    \<and> last_fetch d1 = Some ''2026-01-02 10:00'' \<and> last_fetch d2 = Some ''2026-01-03 10:00''"
proof -
  have h2: "likes_md example_config \<noteq> likes_file example_config"
    by (simp add: likes_md_def likes_file_def)
  have h3: "distinct (map note_id [example_note ''2'', example_note ''3''])"
    by (simp add: example_note_def)
  have k: "card (set (map note_id [example_note ''2'', example_note ''3''])
             - set (map item_id (items example_db))) = 1"
    by (simp add: example_note_def example_db_def example_item_def)
  have n: "length (items example_db) = 2"
    by (simp add: example_db_def)
  show ?thesis
    using merge_additive_idempotent [OF example_load h2 h3, of example_config likes_heading
        "''2026-01-02 10:00''" "''2026-01-03 10:00''"]
    unfolding k n by fastforce
qed

text \<open>
  C9. Every item that \<open>_process_notes\<close> builds and appends has empty tags, an empty
  description, an empty note, \<open>reviewed\<close> false, no \<open>removed\<close> key (which every reader
  takes as false), \<open>first_seen\<close> and \<open>saved_at\<close> both equal to the timestamp of the merge,
  and a title that is not empty: a record with neither \<open>display_title\<close> nor \<open>title\<close> gets
  the placeholder made of a fixed prefix and the first eight characters of its id.
\<close>

theorem new_items_fresh_fields:
  assumes "load_db p fs = Inr d" and "md \<noteq> p"
  shows "\<exists>fs' d' added.
      process_notes ns c p md h ts fs = Inr (fs', length added)
    \<and> load_db p fs' = Inr d'
    \<and> items d' = items d @ added
    \<and> (\<forall>it\<in>set added.
          tags it = [] \<and> desc it = [] \<and> item_note it = [] \<and> \<not> reviewed it
        \<and> \<not> is_removed it \<and> removed it = None \<and> removed_at it = None
        \<and> first_seen it = ts \<and> saved_at it = ts \<and> title it \<noteq> [])
    \<and> (\<forall>n. display_title n = [] \<and> note_title n = [] \<longrightarrow>
          title (new_item c ts n) = placeholder_prefix @ take 8 (note_id n))"
proof -
  let ?added = "new_items (map item_id (items d)) c ts ns"
  let ?d' = "d\<lparr>items := items d @ ?added, last_fetch := Some ts\<rparr>"
  let ?fs' = "fs(p \<mapsto> Db_json ?d', md \<mapsto> Markdown ?d' h)"
  have run: "process_notes ns c p md h ts fs = Inr (?fs', length ?added)"
    using assms by (rule process_notes_eq)
  have load: "load_db p ?fs' = Inr ?d'"
    using assms(2) by (rule load_after_process)
  have fields: "\<forall>it\<in>set ?added.
          tags it = [] \<and> desc it = [] \<and> item_note it = [] \<and> \<not> reviewed it
        \<and> \<not> is_removed it \<and> removed it = None \<and> removed_at it = None
        \<and> first_seen it = ts \<and> saved_at it = ts \<and> title it \<noteq> []"
    using new_item_fields by (auto simp: new_items_filter is_removed_def)
  have placeholder: "\<forall>n. display_title n = [] \<and> note_title n = [] \<longrightarrow>
          title (new_item c ts n) = placeholder_prefix @ take 8 (note_id n)"
    by (simp add: new_item_def Let_def)
  show ?thesis
    apply (rule exI [of _ ?fs'], rule exI [of _ ?d'], rule exI [of _ ?added])
    using run load fields placeholder by simp
qed

theorem new_items_fresh_fields_witness:
  "\<exists>fs' d' it.
      process_notes [example_note ''0123456789abcdef''] example_config
        (likes_file example_config) (likes_md example_config) likes_heading
        ''2026-01-02 10:00'' example_fs = Inr (fs', 1)
    \<and> load_db (likes_file example_config) fs' = Inr d'
    \<and> items d' = items example_db @ [it]
    \<and> tags it = [] \<and> desc it = [] \<and> item_note it = [] \<and> \<not> reviewed it
    \<and> \<not> is_removed it
    \<and> first_seen it = ''2026-01-02 10:00'' \<and> saved_at it = ''2026-01-02 10:00''
    \<and> title it = placeholder_prefix @ ''01234567''"
proof -
  have h2: "likes_md example_config \<noteq> likes_file example_config"
    by (simp add: likes_md_def likes_file_def)
  obtain fs' d' added where
    run: "process_notes [example_note ''0123456789abcdef''] example_config
        (likes_file example_config) (likes_md example_config) likes_heading
        ''2026-01-02 10:00'' example_fs = Inr (fs', length added)"
    and load: "load_db (likes_file example_config) fs' = Inr d'"
    and its: "items d' = items example_db @ added"
    and fields: "\<forall>it\<in>set added.
          tags it = [] \<and> desc it = [] \<and> item_note it = [] \<and> \<not> reviewed it
        \<and> \<not> is_removed it \<and> removed it = None \<and> removed_at it = None
        \<and> first_seen it = ''2026-01-02 10:00'' \<and> saved_at it = ''2026-01-02 10:00''
        \<and> title it \<noteq> []"
    using new_items_fresh_fields [OF example_load h2, of "[example_note ''0123456789abcdef'']"
        example_config likes_heading "''2026-01-02 10:00''"]
    by blast
  have "process_notes [example_note ''0123456789abcdef''] example_config
        (likes_file example_config) (likes_md example_config) likes_heading
        ''2026-01-02 10:00'' example_fs
      = Inr (example_fs(likes_file example_config \<mapsto> Db_json (example_db\<lparr>items := items example_db @ [new_item example_config ''2026-01-02 10:00'' (example_note ''0123456789abcdef'')], last_fetch := Some ''2026-01-02 10:00''\<rparr>),
            likes_md example_config \<mapsto> Markdown (example_db\<lparr>items := items example_db @ [new_item example_config ''2026-01-02 10:00'' (example_note ''0123456789abcdef'')], last_fetch := Some ''2026-01-02 10:00''\<rparr>) likes_heading), 1)"
    using process_notes_eq [OF example_load h2, of "[example_note ''0123456789abcdef'']"
        example_config likes_heading "''2026-01-02 10:00''"]
    by (simp add: example_db_def example_item_def example_note_def)
  with run load h2 have d': "d' = example_db\<lparr>items := items example_db @ [new_item example_config ''2026-01-02 10:00'' (example_note ''0123456789abcdef'')], last_fetch := Some ''2026-01-02 10:00''\<rparr>"
    by (auto simp: load_db_def)
  then have added: "added = [new_item example_config ''2026-01-02 10:00'' (example_note ''0123456789abcdef'')]"
    using its by simp
  have t: "title (new_item example_config ''2026-01-02 10:00'' (example_note ''0123456789abcdef''))
            = placeholder_prefix @ ''01234567''"
    by (simp add: new_item_def example_note_def Let_def)
  show ?thesis
    apply (rule exI [of _ fs'], rule exI [of _ d'])
    apply (rule exI [of _ "new_item example_config ''2026-01-02 10:00'' (example_note ''0123456789abcdef'')"])
    using run load its fields added t by simp
qed

section \<open>Uniqueness of ids\<close>

text \<open>
  C10. \<open>_process_notes\<close> computes \<open>existing_ids\<close> once and never extends it in the loop:
  a record whose id is new and which comes twice in the input is appended twice, and the
  ids of the database are then no longer unique. When the ids of the database were unique
  and the input has no repeated id, the ids stay unique; the last loop of
  \<open>_fetch_by_tab\<close> returns such an input, whatever it was given.
\<close>

theorem merge_unique_only_if_deduplicated:
  assumes "load_db p fs = Inr d" and "md \<noteq> p" and "distinct (map item_id (items d))"
  shows "(note_id n \<notin> set (map item_id (items d)) \<longrightarrow>
            (\<exists>fs' d'. process_notes [n, n] c p md h ts fs = Inr (fs', 2)
                \<and> load_db p fs' = Inr d'
                \<and> items d' = items d @ [new_item c ts n, new_item c ts n]
                \<and> \<not> distinct (map item_id (items d'))))
       \<and> (distinct (map note_id ns) \<longrightarrow>
            (\<exists>fs' k d'. process_notes ns c p md h ts fs = Inr (fs', k)
                \<and> load_db p fs' = Inr d'
                \<and> distinct (map item_id (items d'))))
       \<and> distinct (map note_id (deduplicate [] raw))
       \<and> (\<exists>fs' k d'. process_notes (deduplicate [] raw) c p md h ts fs = Inr (fs', k)
                \<and> load_db p fs' = Inr d'
                \<and> distinct (map item_id (items d')))"
proof -
  have run: "\<And>xs. process_notes xs c p md h ts fs =
       Inr (fs(p \<mapsto> Db_json (d\<lparr>items := items d @ new_items (map item_id (items d)) c ts xs,
                                     last_fetch := Some ts\<rparr>),
               md \<mapsto> Markdown (d\<lparr>items := items d @ new_items (map item_id (items d)) c ts xs,
                                     last_fetch := Some ts\<rparr>) h),
            length (new_items (map item_id (items d)) c ts xs))"
    using assms(1,2) by (rule process_notes_eq)
  have load: "\<And>d' x. load_db p (fs(p \<mapsto> Db_json d', md \<mapsto> x)) = Inr d'"
    using assms(2) by (rule load_after_process)
  have twice: "note_id n \<notin> set (map item_id (items d)) \<longrightarrow>
            (\<exists>fs' d'. process_notes [n, n] c p md h ts fs = Inr (fs', 2)
                \<and> load_db p fs' = Inr d'
                \<and> items d' = items d @ [new_item c ts n, new_item c ts n]
                \<and> \<not> distinct (map item_id (items d')))"
  proof
    assume new: "note_id n \<notin> set (map item_id (items d))"
    then have added: "new_items (map item_id (items d)) c ts [n, n] = [new_item c ts n, new_item c ts n]"
      by simp
    let ?d' = "d\<lparr>items := items d @ [new_item c ts n, new_item c ts n], last_fetch := Some ts\<rparr>"
    have "process_notes [n, n] c p md h ts fs
          = Inr (fs(p \<mapsto> Db_json ?d', md \<mapsto> Markdown ?d' h), 2)"
      unfolding run added by simp
    moreover have "load_db p (fs(p \<mapsto> Db_json ?d', md \<mapsto> Markdown ?d' h)) = Inr ?d'"
      by (rule load)
    moreover have "items ?d' = items d @ [new_item c ts n, new_item c ts n]"
      by simp
    moreover have "\<not> distinct (map item_id (items ?d'))"
      by simp
    ultimately show "\<exists>fs' d'. process_notes [n, n] c p md h ts fs = Inr (fs', 2)
                \<and> load_db p fs' = Inr d'
                \<and> items d' = items d @ [new_item c ts n, new_item c ts n]
                \<and> \<not> distinct (map item_id (items d'))"
      by blast
  qed
  have unique: "\<And>xs. distinct (map note_id xs) \<Longrightarrow>
            (\<exists>fs' k d'. process_notes xs c p md h ts fs = Inr (fs', k)
                \<and> load_db p fs' = Inr d'
                \<and> distinct (map item_id (items d')))"
  proof -
    fix xs :: "raw_note list"
    assume dx: "distinct (map note_id xs)"
    let ?d' = "d\<lparr>items := items d @ new_items (map item_id (items d)) c ts xs,
                   last_fetch := Some ts\<rparr>"
    have "distinct (map item_id (items ?d'))"
      using distinct_merge [OF assms(3) dx] by simp
    then show "\<exists>fs' k d'. process_notes xs c p md h ts fs = Inr (fs', k)
                \<and> load_db p fs' = Inr d'
                \<and> distinct (map item_id (items d'))"
      using run [of xs] load [of ?d'] by blast
  qed
  have dd: "distinct (map note_id (deduplicate [] raw))"
    using deduplicate_ids [of "[]" raw] by simp
  show ?thesis
    using twice unique [of ns] dd unique [OF dd] by blast
qed

theorem merge_unique_only_if_deduplicated_witness:
  "(\<exists>fs' d'. process_notes [example_note ''3'', example_note ''3''] example_config
        (likes_file example_config) (likes_md example_config) likes_heading
        ''2026-01-02 10:00'' example_fs = Inr (fs', 2)
      \<and> load_db (likes_file example_config) fs' = Inr d'
      \<and> \<not> distinct (map item_id (items d')))
   \<and> (\<exists>fs' k d'. process_notes
        (deduplicate [] [example_note ''3'', example_note [], example_note ''3''])
        example_config (likes_file example_config) (likes_md example_config) likes_heading
        ''2026-01-02 10:00'' example_fs = Inr (fs', k)
      \<and> load_db (likes_file example_config) fs' = Inr d'
      \<and> distinct (map item_id (items d')))"
proof -
  have h2: "likes_md example_config \<noteq> likes_file example_config"
    by (simp add: likes_md_def likes_file_def)
  have h3: "distinct (map item_id (items example_db))"
    by (simp add: example_db_def example_item_def)
  have new: "note_id (example_note ''3'') \<notin> set (map item_id (items example_db))"
    by (simp add: example_db_def example_item_def example_note_def)
  show ?thesis
    using new merge_unique_only_if_deduplicated [OF example_load h2 h3,
        of "example_note ''3''" example_config likes_heading "''2026-01-02 10:00''" "[]"
           "[example_note ''3'', example_note [], example_note ''3'']"]
    by blast
qed

section \<open>Properties of the tagging pass\<close>

lemma tag_untagged_tagged: "tags it \<noteq> [] \<Longrightarrow> tag_untagged R it = it"
  by (simp add: tag_untagged_def)

lemma tag_all_eq:
  assumes "load_db (if coll = ''likes'' then likes_file c else bookmarks_file c) fs = Inr d"
  shows "tag_all c coll fs =
     Inr (fs((if coll = ''likes'' then likes_file c else bookmarks_file c) \<mapsto>
                Db_json (d\<lparr>items := map (tag_untagged (tag_rules c)) (items d)\<rparr>),
             (if coll = ''likes'' then likes_md c else bookmarks_md c) \<mapsto>
                Markdown (d\<lparr>items := map (tag_untagged (tag_rules c)) (items d)\<rparr>)
                  (if coll = ''likes'' then likes_heading else bookmarks_heading)))"
  using assms by (simp add: tag_all_def Let_def save_db_eq export_markdown_eq)

lemma load_after_tag_all:
  "load_db (if coll = ''likes'' then likes_file c else bookmarks_file c)
     (fs((if coll = ''likes'' then likes_file c else bookmarks_file c) \<mapsto> Db_json d',
         (if coll = ''likes'' then likes_md c else bookmarks_md c) \<mapsto> x)) = Inr d'"
  by (rule load_after_process) (simp add: md_ne)

text \<open>
  C4. Tag stability. \<open>tag_all\<close> classifies an item only when its tag list is empty: an
  item with a non-empty tag list is left as it is, whatever the rules are, and an item
  with an empty one gets the tags of \<open>auto_tag\<close> and nothing else changed. Running the
  pass again, with any other rule list, changes nothing at all.
\<close>

theorem tag_all_stable:
  assumes "load_db (if coll = ''likes'' then likes_file c else bookmarks_file c) fs = Inr d"
  shows "\<exists>fs' d'.
      tag_all c coll fs = Inr fs'
    \<and> load_db (if coll = ''likes'' then likes_file c else bookmarks_file c) fs' = Inr d'
    \<and> length (items d') = length (items d)
    \<and> (\<forall>i<length (items d).
          (tags (items d ! i) \<noteq> [] \<longrightarrow> items d' ! i = items d ! i)
        \<and> (tags (items d ! i) = [] \<longrightarrow>
             items d' ! i = (items d ! i)\<lparr>tags :=
               auto_tag (title (items d ! i)) (desc (items d ! i)) (tag_rules c)\<rparr>))
    \<and> (\<forall>c2. data_dir c2 = data_dir c \<longrightarrow>
          (\<exists>fs''. tag_all c2 coll fs' = Inr fs''
             \<and> load_db (if coll = ''likes'' then likes_file c else bookmarks_file c) fs'' = Inr d'))"
proof -
  let ?p = "if coll = ''likes'' then likes_file c else bookmarks_file c"
  let ?md = "if coll = ''likes'' then likes_md c else bookmarks_md c"
  let ?h = "if coll = ''likes'' then likes_heading else bookmarks_heading"
  let ?d' = "d\<lparr>items := map (tag_untagged (tag_rules c)) (items d)\<rparr>"
  let ?fs' = "fs(?p \<mapsto> Db_json ?d', ?md \<mapsto> Markdown ?d' ?h)"
  have run: "tag_all c coll fs = Inr ?fs'"
    using assms by (rule tag_all_eq)
  have load: "load_db ?p ?fs' = Inr ?d'"
    by (rule load_after_tag_all)
  have each: "\<forall>i<length (items d).
          (tags (items d ! i) \<noteq> [] \<longrightarrow> items ?d' ! i = items d ! i)
        \<and> (tags (items d ! i) = [] \<longrightarrow>
             items ?d' ! i = (items d ! i)\<lparr>tags :=
               auto_tag (title (items d ! i)) (desc (items d ! i)) (tag_rules c)\<rparr>)"
    by (simp add: tag_untagged_def)
  have again: "\<forall>c2. data_dir c2 = data_dir c \<longrightarrow>
          (\<exists>fs''. tag_all c2 coll ?fs' = Inr fs'' \<and> load_db ?p fs'' = Inr ?d')"
  proof (intro allI impI)
    fix c2 :: config
    assume dir: "data_dir c2 = data_dir c"
    have paths: "(if coll = ''likes'' then likes_file c2 else bookmarks_file c2) = ?p"
      "(if coll = ''likes'' then likes_md c2 else bookmarks_md c2) = ?md"
      using dir by (simp_all add: likes_file_def bookmarks_file_def likes_md_def bookmarks_md_def)
    have load2: "load_db (if coll = ''likes'' then likes_file c2 else bookmarks_file c2) ?fs' = Inr ?d'"
      unfolding paths by (rule load)
    have same: "?d'\<lparr>items := map (tag_untagged (tag_rules c2)) (items ?d')\<rparr> = ?d'"
      by (simp add: tag_untagged_idem comp_def)
    have "tag_all c2 coll ?fs' =
       Inr (?fs'(?p \<mapsto> Db_json ?d', ?md \<mapsto> Markdown ?d' ?h))"
      using tag_all_eq [OF load2] unfolding paths same .
    moreover have "load_db ?p (?fs'(?p \<mapsto> Db_json ?d', ?md \<mapsto> Markdown ?d' ?h)) = Inr ?d'"
      by (rule load_after_tag_all)
    ultimately show "\<exists>fs''. tag_all c2 coll ?fs' = Inr fs'' \<and> load_db ?p fs'' = Inr ?d'"
      by blast
  qed
  show ?thesis
    apply (rule exI [of _ ?fs'], rule exI [of _ ?d'])
    using run load each again by simp
qed

theorem tag_all_stable_witness:
  "\<exists>fs' d'.
      tag_all example_config ''likes'' example_fs = Inr fs'
    \<and> load_db (likes_file example_config) fs' = Inr d'
    \<and> length (items d') = 2
    \<and> tags (items d' ! 0) = [''AI/LLM'']
    \<and> items d' ! 1 = items example_db ! 1
    \<and> tags (items d' ! 1) = [''X'']
    \<and> (\<exists>fs''. tag_all (example_config\<lparr>tag_rules := []\<rparr>) ''likes'' fs' = Inr fs''
          \<and> load_db (likes_file example_config) fs'' = Inr d')"
proof -
  have h: "load_db (if ''likes'' = ''likes'' then likes_file example_config
                    else bookmarks_file example_config) example_fs = Inr example_db"
    using example_load by simp
  obtain fs' d' where
    run: "tag_all example_config ''likes'' example_fs = Inr fs'"
    and load: "load_db (likes_file example_config) fs' = Inr d'"
    and len: "length (items d') = length (items example_db)"
    and each: "\<forall>i<length (items example_db).
          (tags (items example_db ! i) \<noteq> [] \<longrightarrow> items d' ! i = items example_db ! i)
        \<and> (tags (items example_db ! i) = [] \<longrightarrow>
             items d' ! i = (items example_db ! i)\<lparr>tags :=
               auto_tag (title (items example_db ! i)) (desc (items example_db ! i))
                 (tag_rules example_config)\<rparr>)"
    and again: "\<forall>c2. data_dir c2 = data_dir example_config \<longrightarrow>
          (\<exists>fs''. tag_all c2 ''likes'' fs' = Inr fs''
             \<and> load_db (likes_file example_config) fs'' = Inr d')"
    using tag_all_stable [OF h] by auto
  have n: "length (items example_db) = 2"
    by (simp add: example_db_def)
  have i0: "tags (items example_db ! 0) = []"
    and t0: "auto_tag (title (items example_db ! 0)) (desc (items example_db ! 0))
               (tag_rules example_config) = [''AI/LLM'']"
    and i1: "tags (items example_db ! 1) = [''X'']"
    by (simp_all add: example_db_def example_item_def example_config_def auto_tag_def
        lower_def lower_char_def startswith_def)
  have a0: "tags (items d' ! 0) = [''AI/LLM'']"
    using each n i0 t0 by simp
  have a1: "items d' ! 1 = items example_db ! 1"
    using each n i1 by simp
  have a2: "\<exists>fs''. tag_all (example_config\<lparr>tag_rules := []\<rparr>) ''likes'' fs' = Inr fs''
          \<and> load_db (likes_file example_config) fs'' = Inr d'"
    using again by simp
  show ?thesis
    using run load len n a0 a1 i1 a2 by auto
qed

section \<open>Properties of the review session\<close>

text \<open>
  C6. Mode filter partition. For every database and every set of reviewed ids, the
  entries eligible under mode \<open>ai\<close> (not reviewed, carrying the primary tag) and those
  eligible under mode \<open>other\<close> (not reviewed, not carrying it) are disjoint, and together
  they are the entries eligible under any other mode, such as \<open>all\<close>, which are exactly
  the entries not reviewed.
\<close>

theorem get_items_partition:
  "set (get_items d ''ai'' ids) \<inter> set (get_items d ''other'' ids) = {}
   \<and> (m \<noteq> ''ai'' \<and> m \<noteq> ''other'' \<longrightarrow>
        set (get_items d ''ai'' ids) \<union> set (get_items d ''other'' ids) = set (get_items d m ids)
      \<and> get_items d m ids = filter (\<lambda>(i, it). item_id it \<notin> set ids) (enumerate 0 (items d)))
   \<and> get_items d ''ai'' ids =
        filter (\<lambda>(i, it). item_id it \<notin> set ids \<and> ''AI/LLM'' \<in> set (tags it))
          (enumerate 0 (items d))
   \<and> get_items d ''other'' ids =
        filter (\<lambda>(i, it). item_id it \<notin> set ids \<and> ''AI/LLM'' \<notin> set (tags it))
          (enumerate 0 (items d))"
  by (auto simp: get_items_def intro!: filter_cong)

theorem get_items_partition_witness:
  "set (get_items review_db ''ai'' [''c'']) \<inter> set (get_items review_db ''other'' [''c'']) = {}
   \<and> set (get_items review_db ''ai'' [''c'']) \<union> set (get_items review_db ''other'' [''c''])
       = set (get_items review_db ''all'' [''c''])
   \<and> get_items review_db ''all'' [''c'']
       = [(0, example_item ''a'' ''LLM agents'' [''AI/LLM'']), (1, example_item ''b'' ''Cafe'' [''Food''])]
   \<and> get_items review_db ''ai'' [''c''] = [(0, example_item ''a'' ''LLM agents'' [''AI/LLM''])]
   \<and> get_items review_db ''other'' [''c''] = [(1, example_item ''b'' ''Cafe'' [''Food''])]"
proof -
  have m: "''all'' \<noteq> ''ai'' \<and> ''all'' \<noteq> ''other''"
    by simp
  have e: "enumerate 0 (items review_db) =
       [(0, example_item ''a'' ''LLM agents'' [''AI/LLM'']),
        (1, example_item ''b'' ''Cafe'' [''Food'']),
        (2, example_item ''c'' ''Prompt tips'' [''AI/LLM'', ''Code''])]"
    by (simp add: review_db_def)
  have ids: "item_id (example_item ''a'' ''LLM agents'' [''AI/LLM'']) = ''a''"
    "item_id (example_item ''b'' ''Cafe'' [''Food'']) = ''b''"
    "item_id (example_item ''c'' ''Prompt tips'' [''AI/LLM'', ''Code'']) = ''c''"
    "tags (example_item ''a'' ''LLM agents'' [''AI/LLM'']) = [''AI/LLM'']"
    "tags (example_item ''b'' ''Cafe'' [''Food'']) = [''Food'']"
    "tags (example_item ''c'' ''Prompt tips'' [''AI/LLM'', ''Code'']) = [''AI/LLM'', ''Code'']"
    by (simp_all add: example_item_def)
  have lists: "get_items review_db ''all'' [''c'']
       = [(0, example_item ''a'' ''LLM agents'' [''AI/LLM'']), (1, example_item ''b'' ''Cafe'' [''Food''])]"
    "get_items review_db ''ai'' [''c''] = [(0, example_item ''a'' ''LLM agents'' [''AI/LLM''])]"
    "get_items review_db ''other'' [''c''] = [(1, example_item ''b'' ''Cafe'' [''Food''])]"
    by (simp_all add: get_items_def e ids)
  have part: "set (get_items review_db ''ai'' [''c'']) \<inter> set (get_items review_db ''other'' [''c'']) = {}
   \<and> set (get_items review_db ''ai'' [''c'']) \<union> set (get_items review_db ''other'' [''c''])
       = set (get_items review_db ''all'' [''c''])"
    using get_items_partition [of review_db "[''c'']" "''all''"] m by blast
  show ?thesis
    using part lists by blast
qed

lemma put_item_nth:
  "i < length (items d) \<Longrightarrow>
     items (put_item idx it d) ! i = (if i = idx then it else items d ! i)"
  by (simp add: put_item_def nth_list_update)

lemma length_put_item: "length (items (put_item idx it d)) = length (items d)"
  by (simp add: put_item_def)

lemma review_command_cases:
  assumes "review_command idx line now s = Inr f"
  obtains
    (keep) "f = Continue (s\<lparr>data := put_item idx ((items (data s) ! idx)\<lparr>reviewed := True\<rparr>) (data s),
                          reviewed_set := List.insert (item_id (items (data s) ! idx)) (reviewed_set s),
                          pos := pos s + 1\<rparr>)"
  | (remove) "f = Continue (s\<lparr>data := put_item idx
                             ((items (data s) ! idx)\<lparr>reviewed := True, removed := Some True,
                                                     removed_at := Some now\<rparr>) (data s),
                          reviewed_set := List.insert (item_id (items (data s) ! idx)) (reviewed_set s),
                          pos := pos s + 1\<rparr>)"
  | (skip) "f = Continue (s\<lparr>pos := pos s + 1\<rparr>)"
  | (retag) ts where "f = Continue (s\<lparr>data := put_item idx ((items (data s) ! idx)\<lparr>tags := ts\<rparr>) (data s)\<rparr>)"
  | (annotate) r where "f = Continue (s\<lparr>data := put_item idx ((items (data s) ! idx)\<lparr>item_note := r\<rparr>) (data s)\<rparr>)"
  | (quit) "f = Break s"
  | (unknown) "f = Continue s"
  using assms unfolding review_command_def Let_def
  by (auto split: if_splits list.splits)

lemma review_command_mono:
  assumes "review_command idx line now s = Inr f"
  shows "set (reviewed_set s) \<subseteq> set (reviewed_set (flow_session f))"
    and "pos s \<le> pos (flow_session f)"
    and "length (items (data (flow_session f))) = length (items (data s))"
    and "\<forall>i<length (items (data s)).
           item_id (items (data (flow_session f)) ! i) = item_id (items (data s) ! i)
         \<and> (reviewed (items (data s) ! i) \<longrightarrow> reviewed (items (data (flow_session f)) ! i))
         \<and> (is_removed (items (data s) ! i) \<longrightarrow> is_removed (items (data (flow_session f)) ! i))"
  using assms
  by (cases rule: review_command_cases;
      simp add: put_item_nth length_put_item is_removed_def subset_insertI; fail)+

lemma session_le_refl: "session_le s s"
  by (simp add: session_le_def)

lemma session_le_trans: "session_le s t \<Longrightarrow> session_le t u \<Longrightarrow> session_le s u"
  unfolding session_le_def by (auto; fastforce)

lemma review_command_le:
  assumes "review_command idx line now s = Inr f"
  shows "session_le s (flow_session f)"
  unfolding session_le_def using review_command_mono [OF assms] by blast

lemma review_command_break:
  assumes "review_command idx line now s = Inr (Break s')"
  shows "s' = s"
  using assms by (cases rule: review_command_cases) simp_all

lemma review_loop_le:
  "review_loop its inputs s = Inr s' \<Longrightarrow> session_le s s'"
proof (induction its inputs s rule: review_loop.induct)
  case (1 its s)
  then show ?case
    by (simp add: session_le_refl split: if_splits)
next
  case (2 its line now rest s)
  show ?case
  proof (cases "pos s < length its")
    case False
    with "2.prems" show ?thesis
      by (simp add: session_le_refl)
  next
    case True
    show ?thesis
    proof (cases "review_command (fst (its ! pos s)) line now s")
      case (Inl e)
      with True "2.prems" show ?thesis by simp
    next
      case (Inr f)
      show ?thesis
      proof (cases f)
        case (Continue s1)
        have "session_le s s1"
          using review_command_le [OF Inr] Continue by simp
        moreover have "session_le s1 s'"
          using "2.IH" [OF True Inr Continue] "2.prems" True Inr Continue by simp
        ultimately show ?thesis
          by (rule session_le_trans)
      next
        case (Break s1)
        then have "s' = s1"
          using "2.prems" True Inr by simp
        moreover have "s1 = s"
          using review_command_break Inr Break by blast
        ultimately show ?thesis
          by (simp add: session_le_refl)
      qed
    qed
  qed
qed

lemma state_ne_likes: "review_state_file c \<noteq> likes_file c"
  by (simp add: review_state_file_def likes_file_def)

lemma load_state_after:
  "load_state c (fs(review_state_file c \<mapsto> State_json st, likes_file c \<mapsto> x)) = Inr st"
  using state_ne_likes [of c] by (simp add: load_state_def)

lemma load_db_after:
  "load_db (likes_file c) (fs(review_state_file c \<mapsto> y, likes_file c \<mapsto> Db_json d)) = Inr d"
  by (simp add: load_db_def)

lemma review_eq:
  assumes "load_state c fs = Inr st0" and "load_db (likes_file c) fs = Inr d"
    and "get_items d m (remdups (reviewed_ids st0)) \<noteq> []"
    and "review_loop (get_items d m (remdups (reviewed_ids st0))) inputs
           \<lparr>pos = 0, reviewed_set = remdups (reviewed_ids st0), data = d\<rparr> = Inr s'"
  shows "review c m start inputs fs =
           Inr (fs(review_state_file c \<mapsto>
                     State_json (st0\<lparr>mode := m, session_start := Some start,
                                     reviewed_ids := reviewed_set s'\<rparr>),
                   likes_file c \<mapsto> Db_json (data s')))"
  using assms by (simp add: review_def Let_def save_db_eq save_state_eq)

lemma quit_not_other:
  assumes "cmd \<in> set [''q'', ''quit'']"
  shows "cmd \<notin> set [''k'', ''keep'', []]" "cmd \<notin> set [''r'', ''remove'']"
    "cmd \<notin> set [''s'', ''skip'']"
    "\<not> (startswith cmd ''t '' \<or> startswith cmd ''tag '')"
    "\<not> (startswith cmd ''n '' \<or> startswith cmd ''note '')"
  using assms by (auto simp: startswith_def)

lemma review_command_quit:
  assumes "lower (strip line) \<in> set [''q'', ''quit'']"
  shows "review_command idx line now s = Inr (Break s)"
  using assms quit_not_other [OF assms]
  by (simp add: review_command_def Let_def)

text \<open>
  C7. Review monotonicity and quit persistence. Over every command sequence the set of
  reviewed ids only grows and no item loses its \<open>reviewed\<close> or \<open>removed\<close> mark; no single
  command removes an id; KEEP and REMOVE add the id of the current item, mark it, and
  advance; SKIP advances and changes nothing else; QUIT in the middle of the list ends
  the loop with the session as the earlier commands left it; and whenever the loop ends,
  by QUIT or at the end of the list, \<open>review\<close> writes the review state, with all the ids
  accumulated, and the mutated database, so that the next loads return them.
\<close>

theorem review_monotone_and_persistent:
  "(review_loop its inputs s = Inr s' \<longrightarrow>
       set (reviewed_set s) \<subseteq> set (reviewed_set s')
     \<and> (\<forall>i<length (items (data s)).
          (reviewed (items (data s) ! i) \<longrightarrow> reviewed (items (data s') ! i))
        \<and> (is_removed (items (data s) ! i) \<longrightarrow> is_removed (items (data s') ! i))))
   \<and> (review_command idx line now s = Inr f \<longrightarrow>
        set (reviewed_set s) \<subseteq> set (reviewed_set (flow_session f)))
   \<and> (lower (strip line) \<in> set [''k'', ''keep'', []] \<longrightarrow>
        review_command idx line now s =
          Inr (Continue (s\<lparr>data := put_item idx ((items (data s) ! idx)\<lparr>reviewed := True\<rparr>) (data s),
                 reviewed_set := List.insert (item_id (items (data s) ! idx)) (reviewed_set s),
                 pos := pos s + 1\<rparr>)))
   \<and> (lower (strip line) \<in> set [''r'', ''remove''] \<longrightarrow>
        review_command idx line now s =
          Inr (Continue (s\<lparr>data := put_item idx
                   ((items (data s) ! idx)\<lparr>reviewed := True, removed := Some True,
                                           removed_at := Some now\<rparr>) (data s),
                 reviewed_set := List.insert (item_id (items (data s) ! idx)) (reviewed_set s),
                 pos := pos s + 1\<rparr>)))
   \<and> (lower (strip line) \<in> set [''s'', ''skip''] \<longrightarrow>
        review_command idx line now s = Inr (Continue (s\<lparr>pos := pos s + 1\<rparr>)))
   \<and> (pos s < length its \<and> review_command (fst (its ! pos s)) line now s = Inr (Continue s1) \<longrightarrow>
        review_loop its ((line, now) # rest) s = review_loop its rest s1)
   \<and> (lower (strip line) \<in> set [''q'', ''quit''] \<and> pos s < length its \<longrightarrow>
        review_loop its ((line, now) # rest) s = Inr s)
   \<and> (load_state c fs = Inr st0 \<and> load_db (likes_file c) fs = Inr d
        \<and> get_items d m (remdups (reviewed_ids st0)) \<noteq> []
        \<and> review_loop (get_items d m (remdups (reviewed_ids st0))) cmds
             \<lparr>pos = 0, reviewed_set = remdups (reviewed_ids st0), data = d\<rparr> = Inr s2 \<longrightarrow>
        (\<exists>fs'. review c m start cmds fs = Inr fs'
           \<and> load_state c fs' = Inr (st0\<lparr>mode := m, session_start := Some start,
                                          reviewed_ids := reviewed_set s2\<rparr>)
           \<and> load_db (likes_file c) fs' = Inr (data s2)
           \<and> set (reviewed_ids st0) \<subseteq> set (reviewed_set s2)))"
proof -
  have mono: "review_loop its inputs s = Inr s' \<longrightarrow>
       set (reviewed_set s) \<subseteq> set (reviewed_set s')
     \<and> (\<forall>i<length (items (data s)).
          (reviewed (items (data s) ! i) \<longrightarrow> reviewed (items (data s') ! i))
        \<and> (is_removed (items (data s) ! i) \<longrightarrow> is_removed (items (data s') ! i)))"
    using review_loop_le [of its inputs s s'] unfolding session_le_def by blast
  have step: "review_command idx line now s = Inr f \<longrightarrow>
        set (reviewed_set s) \<subseteq> set (reviewed_set (flow_session f))"
    using review_command_mono(1) by blast
  have keep: "lower (strip line) \<in> set [''k'', ''keep'', []] \<longrightarrow>
        review_command idx line now s =
          Inr (Continue (s\<lparr>data := put_item idx ((items (data s) ! idx)\<lparr>reviewed := True\<rparr>) (data s),
                 reviewed_set := List.insert (item_id (items (data s) ! idx)) (reviewed_set s),
                 pos := pos s + 1\<rparr>))"
    by (simp add: review_command_def Let_def)
  have remove: "lower (strip line) \<in> set [''r'', ''remove''] \<longrightarrow>
        review_command idx line now s =
          Inr (Continue (s\<lparr>data := put_item idx
                   ((items (data s) ! idx)\<lparr>reviewed := True, removed := Some True,
                                           removed_at := Some now\<rparr>) (data s),
                 reviewed_set := List.insert (item_id (items (data s) ! idx)) (reviewed_set s),
                 pos := pos s + 1\<rparr>))"
    by (auto simp: review_command_def Let_def)
  have skip: "lower (strip line) \<in> set [''s'', ''skip''] \<longrightarrow>
        review_command idx line now s = Inr (Continue (s\<lparr>pos := pos s + 1\<rparr>))"
    by (auto simp: review_command_def Let_def)
  have next_turn: "pos s < length its
        \<and> review_command (fst (its ! pos s)) line now s = Inr (Continue s1) \<longrightarrow>
        review_loop its ((line, now) # rest) s = review_loop its rest s1"
    by simp
  have quit: "lower (strip line) \<in> set [''q'', ''quit''] \<and> pos s < length its \<longrightarrow>
        review_loop its ((line, now) # rest) s = Inr s"
    using review_command_quit [of line "fst (its ! pos s)" now s] by simp
  have persist: "load_state c fs = Inr st0 \<and> load_db (likes_file c) fs = Inr d
        \<and> get_items d m (remdups (reviewed_ids st0)) \<noteq> []
        \<and> review_loop (get_items d m (remdups (reviewed_ids st0))) cmds
             \<lparr>pos = 0, reviewed_set = remdups (reviewed_ids st0), data = d\<rparr> = Inr s2 \<longrightarrow>
        (\<exists>fs'. review c m start cmds fs = Inr fs'
           \<and> load_state c fs' = Inr (st0\<lparr>mode := m, session_start := Some start,
                                          reviewed_ids := reviewed_set s2\<rparr>)
           \<and> load_db (likes_file c) fs' = Inr (data s2)
           \<and> set (reviewed_ids st0) \<subseteq> set (reviewed_set s2))"
  proof
    assume h: "load_state c fs = Inr st0 \<and> load_db (likes_file c) fs = Inr d
        \<and> get_items d m (remdups (reviewed_ids st0)) \<noteq> []
        \<and> review_loop (get_items d m (remdups (reviewed_ids st0))) cmds
             \<lparr>pos = 0, reviewed_set = remdups (reviewed_ids st0), data = d\<rparr> = Inr s2"
    let ?st = "st0\<lparr>mode := m, session_start := Some start, reviewed_ids := reviewed_set s2\<rparr>"
    let ?fs' = "fs(review_state_file c \<mapsto> State_json ?st, likes_file c \<mapsto> Db_json (data s2))"
    have h1: "load_state c fs = Inr st0" and h2: "load_db (likes_file c) fs = Inr d"
      and h3: "get_items d m (remdups (reviewed_ids st0)) \<noteq> []"
      and h4: "review_loop (get_items d m (remdups (reviewed_ids st0))) cmds
             \<lparr>pos = 0, reviewed_set = remdups (reviewed_ids st0), data = d\<rparr> = Inr s2"
      using h by simp_all
    have run: "review c m start cmds fs = Inr ?fs'"
      using h1 h2 h3 h4 by (rule review_eq)
    have st: "load_state c ?fs' = Inr ?st"
      by (rule load_state_after)
    have db: "load_db (likes_file c) ?fs' = Inr (data s2)"
      by (rule load_db_after)
    have "session_le \<lparr>pos = 0, reviewed_set = remdups (reviewed_ids st0), data = d\<rparr> s2"
      using h4 by (rule review_loop_le)
    then have sub: "set (reviewed_ids st0) \<subseteq> set (reviewed_set s2)"
      by (simp add: session_le_def)
    show "\<exists>fs'. review c m start cmds fs = Inr fs'
           \<and> load_state c fs' = Inr ?st
           \<and> load_db (likes_file c) fs' = Inr (data s2)
           \<and> set (reviewed_ids st0) \<subseteq> set (reviewed_set s2)"
      using run st db sub by blast
  qed
  show ?thesis
    using mono step keep remove skip next_turn quit persist by blast
qed

theorem review_monotone_and_persistent_witness:
  "\<exists>fs' d'.
      review example_config ''all'' ''2026-01-05 10:00'' example_inputs review_fs = Inr fs'
    \<and> load_state example_config fs' =
          Inr \<lparr>mode = ''all'', reviewed_ids = [''b'', ''a''],
                session_start = Some ''2026-01-05 10:00'', last_shown_id = None\<rparr>
    \<and> load_db (likes_file example_config) fs' = Inr d'
    \<and> map reviewed (items d') = [True, True, False]
    \<and> map is_removed (items d') = [False, True, False]
    \<and> tags (items d' ! 1) = [''Food'', ''bar'', ''foo'']"
proof -
  let ?final = "\<lparr>pos = 2, reviewed_set = [''b'', ''a''],
      data = \<lparr>items = [(example_item ''a'' ''LLM agents'' [''AI/LLM''])\<lparr>reviewed := True\<rparr>,
                    (example_item ''b'' ''Cafe'' [''Food'', ''bar'', ''foo''])
                      \<lparr>reviewed := True, removed := Some True,
                       removed_at := Some ''2026-01-05 10:03''\<rparr>,
                    example_item ''c'' ''Prompt tips'' [''AI/LLM'', ''Code'']],
                 last_fetch = Some ''2026-01-01 09:00''\<rparr>\<rparr>"
  have h1: "load_state example_config review_fs = Inr default_state"
    by (simp add: load_state_def review_fs_def review_state_file_def likes_file_def)
  have h2: "load_db (likes_file example_config) review_fs = Inr review_db"
    by (simp add: load_db_def review_fs_def)
  have ids: "remdups (reviewed_ids default_state) = []"
    by (simp add: default_state_def)
  have h3: "get_items review_db ''all'' (remdups (reviewed_ids default_state)) \<noteq> []"
    unfolding ids by (simp add: get_items_def review_db_def)
  have h4: "review_loop (get_items review_db ''all'' (remdups (reviewed_ids default_state)))
              example_inputs
              \<lparr>pos = 0, reviewed_set = remdups (reviewed_ids default_state), data = review_db\<rparr>
            = Inr ?final"
    unfolding ids by code_simp
  obtain fs' where
    run: "review example_config ''all'' ''2026-01-05 10:00'' example_inputs review_fs = Inr fs'"
    and st: "load_state example_config fs' =
          Inr (default_state\<lparr>mode := ''all'', session_start := Some ''2026-01-05 10:00'',
                              reviewed_ids := reviewed_set ?final\<rparr>)"
    and db: "load_db (likes_file example_config) fs' = Inr (data ?final)"
    using review_monotone_and_persistent [where c = example_config and fs = review_fs
        and ?st0.0 = default_state and d = review_db and m = "''all''" and cmds = example_inputs
        and ?s2.0 = ?final and start = "''2026-01-05 10:00''"
        and its = "[]" and inputs = "[]" and rest = "[]" and line = "[]" and now = "[]"
        and idx = 0 and f = "Break ?final" and s = ?final and s' = ?final and ?s1.0 = ?final]
      h1 h2 h3 h4
    by blast
  have st': "load_state example_config fs' =
          Inr \<lparr>mode = ''all'', reviewed_ids = [''b'', ''a''],
                session_start = Some ''2026-01-05 10:00'', last_shown_id = None\<rparr>"
    using st by (simp add: default_state_def)
  have f: "map reviewed (items (data ?final)) = [True, True, False]"
    "map is_removed (items (data ?final)) = [False, True, False]"
    "tags (items (data ?final) ! 1) = [''Food'', ''bar'', ''foo'']"
    by (simp_all add: example_item_def is_removed_def)
  show ?thesis
    by (intro exI [of _ fs'] exI [of _ "data ?final"] conjI) (rule run st' db f)+
qed

text \<open>
  C5. The command \<open>NOTE text\<close> should store the text as the user typed it. The line read
  by \<open>input\<close> is stripped and lower-cased as a whole before the command is recognised,
  and the note is cut out of that lower-cased line: the line \<open>n Read Later\<close> stores the
  note \<open>read later\<close>. The position and the set of reviewed ids stay as they were.
\<close>

theorem note_command_lowercased:
  "review_command 0 ''n Read Later'' ''2026-01-05 10:01''
       \<lparr>pos = 0, reviewed_set = [], data = review_db\<rparr>
     = Inr (Continue \<lparr>pos = 0, reviewed_set = [],
              data = put_item 0 ((items review_db ! 0)\<lparr>item_note := ''read later''\<rparr>) review_db\<rparr>)
   \<and> ''read later'' \<noteq> ''Read Later''"
  by (simp add: review_command_def Let_def lower_def lower_char_def strip_def is_space_def
      split_max1_def startswith_def)

section \<open>Saving and a crash during it\<close>

text \<open>
  A crash during \<open>save_db\<close> leaves the files as they are after some first \<open>k\<close> of its
  file operations: \<open>run_ops (take k (save_db_ops p d)) fs\<close>.
\<close>

lemma take_save_db_ops:
  "take k (save_db_ops p d) =
     (if k = 0 then []
      else if k = 1 then [Mkdir (butlast p)]
      else if k = 2 then [Mkdir (butlast p), Open_w p]
      else save_db_ops p d)"
proof -
  consider "k = 0" | "k = 1" | "k = 2" | "3 \<le> k" by linarith
  then show ?thesis
  proof cases
    case 4
    then show ?thesis
      by (simp add: save_db_ops_def write_text_def)
  qed (simp_all add: save_db_ops_def write_text_def numeral_2_eq_2)
qed

text \<open>
  C2 (amended). \<open>save_db\<close> rewrites the destination file in place: it makes the parent
  directory, opens the file itself for writing, which truncates it, and writes the new
  text; there is no temporary file and no replace. A completed save makes the next load
  return the saved database and leaves every other file as it was. A crash before the
  file is opened leaves the store as it was; a crash after it is opened and before the
  text is written leaves a file that the next load rejects with a decode error, whatever
  was persisted before. At every point of the save the next load returns the old
  database, the new one, or that error.
\<close>

theorem save_db_in_place:
  "save_db_ops p d = [Mkdir (butlast p), Open_w p, Write_all p (Db_json d)]
   \<and> load_db p (save_db p d fs) = Inr d
   \<and> (q \<noteq> p \<longrightarrow> save_db p d fs q = fs q)
   \<and> (3 \<le> k \<longrightarrow> run_ops (take k (save_db_ops p d)) fs = save_db p d fs)
   \<and> (k \<le> 1 \<longrightarrow> run_ops (take k (save_db_ops p d)) fs = fs)
   \<and> (k = 2 \<longrightarrow> load_db p (run_ops (take k (save_db_ops p d)) fs) = Inl JSONDecodeError)
   \<and> (load_db p (run_ops (take k (save_db_ops p d)) fs) = load_db p fs
      \<or> load_db p (run_ops (take k (save_db_ops p d)) fs) = Inl JSONDecodeError
      \<or> load_db p (run_ops (take k (save_db_ops p d)) fs) = Inr d)"
proof -
  have ops: "save_db_ops p d = [Mkdir (butlast p), Open_w p, Write_all p (Db_json d)]"
    by (simp add: save_db_ops_def write_text_def)
  have complete: "load_db p (save_db p d fs) = Inr d"
    by (simp add: save_db_eq load_db_def)
  have other: "q \<noteq> p \<longrightarrow> save_db p d fs q = fs q"
    by (simp add: save_db_eq)
  have full: "3 \<le> k \<longrightarrow> run_ops (take k (save_db_ops p d)) fs = save_db p d fs"
    by (simp add: take_save_db_ops save_db_def)
  have before: "k \<le> 1 \<longrightarrow> run_ops (take k (save_db_ops p d)) fs = fs"
    by (auto simp: take_save_db_ops)
  have mid: "k = 2 \<longrightarrow> load_db p (run_ops (take k (save_db_ops p d)) fs) = Inl JSONDecodeError"
    by (simp add: take_save_db_ops load_db_def)
  have any: "load_db p (run_ops (take k (save_db_ops p d)) fs) = load_db p fs
      \<or> load_db p (run_ops (take k (save_db_ops p d)) fs) = Inl JSONDecodeError
      \<or> load_db p (run_ops (take k (save_db_ops p d)) fs) = Inr d"
  proof -
    consider "k \<le> 1" | "k = 2" | "3 \<le> k" by linarith
    then show ?thesis
      using before mid full complete by cases simp_all
  qed
  show ?thesis
    using ops complete other full before mid any by blast
qed

theorem save_db_in_place_witness:
  "load_db (likes_file example_config) (save_db (likes_file example_config) review_db example_fs)
     = Inr review_db
   \<and> save_db (likes_file example_config) review_db example_fs (likes_md example_config)
     = example_fs (likes_md example_config)
   \<and> run_ops (take 3 (save_db_ops (likes_file example_config) review_db)) example_fs
     = save_db (likes_file example_config) review_db example_fs
   \<and> load_db (likes_file example_config)
        (run_ops (take 1 (save_db_ops (likes_file example_config) review_db)) example_fs)
     = Inr example_db"
proof -
  have ne: "likes_md example_config \<noteq> likes_file example_config"
    by (simp add: likes_md_def likes_file_def)
  have le3: "(3::nat) \<le> 3" and le1: "(1::nat) \<le> 1"
    by simp_all
  have a: "load_db (likes_file example_config)
             (save_db (likes_file example_config) review_db example_fs) = Inr review_db"
    and b: "save_db (likes_file example_config) review_db example_fs (likes_md example_config)
             = example_fs (likes_md example_config)"
    using ne save_db_in_place [of "likes_file example_config" review_db example_fs
        "likes_md example_config" 3]
    by blast+
  have c: "run_ops (take 3 (save_db_ops (likes_file example_config) review_db)) example_fs
             = save_db (likes_file example_config) review_db example_fs"
    using le3 save_db_in_place [of "likes_file example_config" review_db example_fs
        "likes_md example_config" 3]
    by blast
  have "run_ops (take 1 (save_db_ops (likes_file example_config) review_db)) example_fs = example_fs"
    using le1 save_db_in_place [of "likes_file example_config" review_db example_fs
        "likes_md example_config" 1]
    by blast
  then have e: "load_db (likes_file example_config)
        (run_ops (take 1 (save_db_ops (likes_file example_config) review_db)) example_fs)
     = Inr example_db"
    using example_load by simp
  show ?thesis
    using a b c e by blast
qed

text \<open>
  C2 as stated fails. With a database persisted in \<open>likes.json\<close>, a crash after the
  first two operations of \<open>save_db\<close> (the directory made, the file opened) leaves a file
  on which the next load raises: the previously persisted database is lost.
\<close>

theorem save_db_atomic_counterexample:
  "load_db (likes_file example_config) example_fs = Inr example_db
   \<and> load_db (likes_file example_config)
        (run_ops (take 2 (save_db_ops (likes_file example_config) review_db)) example_fs)
     = Inl JSONDecodeError
   \<and> take 2 (save_db_ops (likes_file example_config) review_db)
     = [Mkdir (butlast (likes_file example_config)), Open_w (likes_file example_config)]"
  by (simp add: save_db_ops_def write_text_def load_db_def example_fs_def numeral_2_eq_2)

end
